theory Spec2Isabelle
  imports Main
begin

section \<open>Characters and strings\<close>

text \<open>
  Python strings are modelled as \<^typ>\<open>string\<close>, a one-character string as a list of
  length one. \<open>str.upper\<close> and \<open>str.lower\<close> are modelled on the ASCII letters; every other
  character is left as it is.
\<close>

definition char_upper :: "char \<Rightarrow> char" where
  "char_upper c =
     (if 97 \<le> (of_char c :: nat) \<and> (of_char c :: nat) \<le> 122
      then char_of ((of_char c :: nat) - 32) else c)"

definition char_lower :: "char \<Rightarrow> char" where
  "char_lower c =
     (if 65 \<le> (of_char c :: nat) \<and> (of_char c :: nat) \<le> 90
      then char_of ((of_char c :: nat) + 32) else c)"

definition upper :: "string \<Rightarrow> string" where
  "upper s = map char_upper s"

definition lower :: "string \<Rightarrow> string" where
  "lower s = map char_lower s"

section \<open>Errors\<close>

text \<open>
  Every \<open>raise ValueError(...)\<close> of the source is one constructor, named after the error
  kind; \<open>KeyError\<close> and \<open>IndexError\<close> are the exceptions Python itself raises on a missing
  dictionary key and on an index out of range.
\<close>

datatype error =
    InvalidGene
  | DuplicateGene
  | BadArgumentCount
  | MalformedGenotype
  | UnknownGene
  | InvalidAllele
  | BadAlleleOrder
  | DuplicateLocus
  | LengthMismatch
  | InvalidMode
  | InsufficientPopulation
  | InsufficientQuantity
  | InvalidGenotype error
  | InvalidOperation
  | UnknownGroup
  | DuplicateGroup
  | NoGroupSelected
  | KeyError
  | IndexError
  | NameError

text \<open>
  \<open>except ValueError\<close> catches everything but the built-in errors of a failed lookup: of a
  dictionary key, of an index, of a name.
\<close>

fun is_ValueError :: "error \<Rightarrow> bool" where
  "is_ValueError KeyError = False"
| "is_ValueError IndexError = False"
| "is_ValueError NameError = False"
| "is_ValueError _ = True"

section \<open>Gene definitions\<close>

record gene =
  dominant :: string
  recessive :: string
  dom_trait :: string
  rec_trait :: string

type_synonym registry = "string \<rightharpoonup> gene"

text \<open>\<open>Gene.__init__\<close>: both checks raise before any field is set.\<close>

definition Gene_init :: "string \<Rightarrow> string \<Rightarrow> string \<Rightarrow> string \<Rightarrow> error + gene" where
  "Gene_init d r d_trait r_trait =
     (if length d \<noteq> 1 \<or> length r \<noteq> 1 then Inl InvalidGene
      else if d = r then Inl InvalidGene
      else Inr \<lparr>dominant = upper d, recessive = lower r,
                dom_trait = d_trait, rec_trait = r_trait\<rparr>)"

section \<open>Genotype validation\<close>

text \<open>
  \<open>GeneComposition.validate\<close>: the loop \<open>for i in range(0, len(self.genes), 2)\<close> reads the
  characters at \<open>i\<close> and \<open>i + 1\<close>; here it consumes the string two characters at a time.
  The result is the exception raised, if any.
\<close>

fun validate_loci :: "string \<Rightarrow> registry \<Rightarrow> error option" where
  "validate_loci [] reg = None"
| "validate_loci [a] reg =
     (case reg [char_upper a] of None \<Rightarrow> Some UnknownGene | Some g \<Rightarrow> Some IndexError)"
| "validate_loci (a # b # rest) reg =
     (case reg [char_upper a] of
        None \<Rightarrow> Some UnknownGene
      | Some g \<Rightarrow>
          if {[a], [b]} - {dominant g, recessive g} \<noteq> {} then Some InvalidAllele
          else if [b] = dominant g \<and> [a] = recessive g then Some BadAlleleOrder
          else validate_loci rest reg)"

definition validate :: "string \<Rightarrow> registry \<Rightarrow> error option" where
  "validate gs reg =
     (if length gs mod 2 \<noteq> 0 then Some MalformedGenotype else validate_loci gs reg)"

section \<open>Populations\<close>

record simulation_group =
  current_generation :: "string list"
  gene_structure :: "gene list"
  gene_length :: nat
  experiment_mode :: string
  breed_history :: "(nat \<times> nat) list"

text \<open>\<open>SimulationGroup.__init__\<close>.\<close>

definition SimulationGroup :: simulation_group where
  "SimulationGroup =
     \<lparr>current_generation = [], gene_structure = [], gene_length = 0,
      experiment_mode = ''random'', breed_history = []\<rparr>"

text \<open>
  The loop of \<open>initialize_structure\<close>, with the set \<open>seen_genes\<close> and the list
  \<open>self.gene_structure\<close> built so far. An exception leaves the list as it is at that point.
\<close>

fun initialize_loop ::
  "string \<Rightarrow> registry \<Rightarrow> string set \<Rightarrow> gene list \<Rightarrow> error option \<times> gene list" where
  "initialize_loop [] reg seen acc = (None, acc)"
| "initialize_loop [a] reg seen acc =
     (if [char_upper a] \<in> seen then (Some DuplicateLocus, acc)
      else case reg [char_upper a] of
             None \<Rightarrow> (Some UnknownGene, acc)
           | Some g \<Rightarrow> (None, acc @ [g]))"
| "initialize_loop (a # b # rest) reg seen acc =
     (if [char_upper a] \<in> seen then (Some DuplicateLocus, acc)
      else case reg [char_upper a] of
             None \<Rightarrow> (Some UnknownGene, acc)
           | Some g \<Rightarrow> initialize_loop rest reg (insert [char_upper a] seen) (acc @ [g]))"

text \<open>
  \<open>initialize_structure\<close> resets \<open>gene_structure\<close> first and sets \<open>gene_length\<close> last, so a
  failing call has changed the former and not the latter.
\<close>

definition initialize_structure ::
  "string \<Rightarrow> registry \<Rightarrow> simulation_group \<Rightarrow> error option \<times> simulation_group" where
  "initialize_structure gs reg grp =
     (case initialize_loop gs reg {} [] of
        (Some e, acc) \<Rightarrow> (Some e, grp\<lparr>gene_structure := acc\<rparr>)
      | (None, acc) \<Rightarrow> (None, grp\<lparr>gene_structure := acc, gene_length := length gs\<rparr>))"

text \<open>\<open>add_organism\<close>: the exception raised, if any, and the group as the call leaves it.\<close>

definition add_organism ::
  "string \<Rightarrow> registry \<Rightarrow> simulation_group \<Rightarrow> error option \<times> simulation_group" where
  "add_organism gs reg grp =
     (case (if current_generation grp = [] then initialize_structure gs reg grp
            else (None, grp)) of
        (Some e, grp1) \<Rightarrow> (Some e, grp1)
      | (None, grp1) \<Rightarrow>
          (case validate gs reg of
             Some e \<Rightarrow> (Some e, grp1)
           | None \<Rightarrow>
               if length gs \<noteq> gene_length grp1 then (Some LengthMismatch, grp1)
               else (None, grp1\<lparr>current_generation := current_generation grp1 @ [gs]\<rparr>)))"

text \<open>\<open>set_experiment_mode\<close>.\<close>

definition set_experiment_mode ::
  "string \<Rightarrow> simulation_group \<Rightarrow> error option \<times> simulation_group" where
  "set_experiment_mode m grp =
     (if m \<notin> set [''random'', ''cross''] then (Some InvalidMode, grp)
      else (None, grp\<lparr>experiment_mode := m\<rparr>))"

section \<open>The random source\<close>

text \<open>
  The module-level generator of Python's \<open>random\<close> is an explicit argument: an infinite
  sequence of draws, of which \<open>randbelow n\<close> takes the next one, reduced below \<open>n\<close>.
  \<open>random.choice\<close> and \<open>random.shuffle\<close> are as in the standard library: \<open>choice\<close> indexes
  the sequence at \<open>randbelow (len seq)\<close>;  \<open>shuffle\<close> runs \<open>i\<close> from \<open>len x - 1\<close> down to
  \<open>1\<close> and swaps \<open>x[i]\<close> with \<open>x[randbelow (i + 1)]\<close>.
\<close>

type_synonym rng = "nat \<Rightarrow> nat"

definition randbelow :: "nat \<Rightarrow> rng \<Rightarrow> nat \<times> rng" where
  "randbelow n r = (r 0 mod n, \<lambda>i. r (Suc i))"

definition choice :: "'a list \<Rightarrow> rng \<Rightarrow> 'a \<times> rng" where
  "choice xs r = (case randbelow (length xs) r of (k, r') \<Rightarrow> (xs ! k, r'))"

fun shuffle_loop :: "nat \<Rightarrow> 'a list \<Rightarrow> rng \<Rightarrow> 'a list \<times> rng" where
  "shuffle_loop 0 xs r = (xs, r)"
| "shuffle_loop (Suc i) xs r =
     (case randbelow (Suc i + 1) r of
        (j, r') \<Rightarrow> shuffle_loop i (xs[Suc i := xs ! j, j := xs ! Suc i]) r')"

definition shuffle :: "'a list \<Rightarrow> rng \<Rightarrow> 'a list \<times> rng" where
  "shuffle xs r = shuffle_loop (length xs - 1) xs r"

section \<open>Breeding\<close>

text \<open>
  The first loop of \<open>_create_child\<close>: one gamete of each parent at each locus. The gene of
  the locus is looked up before the parents are indexed (\<open>KeyError\<close> before \<open>IndexError\<close>),
  and the second parent is read at the same positions as the first.
\<close>

fun gametes :: "string \<Rightarrow> string \<Rightarrow> registry \<Rightarrow> rng \<Rightarrow> (error + string) \<times> rng" where
  "gametes [] p2 reg r = (Inr [], r)"
| "gametes [a] p2 reg r =
     (case reg [char_upper a] of None \<Rightarrow> (Inl KeyError, r) | Some g \<Rightarrow> (Inl IndexError, r))"
| "gametes (a # b # p1) p2 reg r =
     (case reg [char_upper a] of
        None \<Rightarrow> (Inl KeyError, r)
      | Some g \<Rightarrow>
          (case p2 of
             c # d # p2' \<Rightarrow>
               (case choice [a, b] r of
                  (gamete1, r1) \<Rightarrow>
                    (case choice [c, d] r1 of
                       (gamete2, r2) \<Rightarrow>
                         (case gametes p1 p2' reg r2 of
                            (Inl e, r3) \<Rightarrow> (Inl e, r3)
                          | (Inr child_genes, r3) \<Rightarrow>
                              (Inr (gamete1 # gamete2 # child_genes), r3))))
           | _ \<Rightarrow> (Inl IndexError, r)))"

text \<open>
  The second loop of \<open>_create_child\<close>: each locus is sorted with the key
  \<open>x == gene.recessive\<close>, where the gene is looked up from the first character of the locus.
  Python's \<open>sorted\<close> is stable and \<open>False < True\<close>, as \<^const>\<open>sort_key\<close> on \<^typ>\<open>bool\<close>.
\<close>

fun sort_loci :: "string \<Rightarrow> registry \<Rightarrow> error + string" where
  "sort_loci [] reg = Inr []"
| "sort_loci [a] reg =
     (case reg [char_upper a] of None \<Rightarrow> Inl KeyError | Some g \<Rightarrow> Inl IndexError)"
| "sort_loci (a # b # rest) reg =
     (case reg [char_upper a] of
        None \<Rightarrow> Inl KeyError
      | Some g \<Rightarrow>
          (case sort_loci rest reg of
             Inl e \<Rightarrow> Inl e
           | Inr sorted_genes \<Rightarrow>
               Inr (sort_key (\<lambda>x. [x] = recessive g) [a, b] @ sorted_genes)))"

definition create_child ::
  "string \<Rightarrow> string \<Rightarrow> registry \<Rightarrow> rng \<Rightarrow> (error + string) \<times> rng" where
  "create_child p1 p2 reg r =
     (case gametes p1 p2 reg r of
        (Inl e, r') \<Rightarrow> (Inl e, r')
      | (Inr child_genes, r') \<Rightarrow> (sort_loci child_genes reg, r'))"

text \<open>The children of a list of pairs, in order; the first exception ends the loop.\<close>

fun breed_pairs ::
  "(string \<times> string) list \<Rightarrow> registry \<Rightarrow> rng \<Rightarrow> (error + string list) \<times> rng" where
  "breed_pairs [] reg r = (Inr [], r)"
| "breed_pairs ((p1, p2) # ps) reg r =
     (case create_child p1 p2 reg r of
        (Inl e, r') \<Rightarrow> (Inl e, r')
      | (Inr child, r') \<Rightarrow>
          (case breed_pairs ps reg r' of
             (Inl e, r'') \<Rightarrow> (Inl e, r'')
           | (Inr next_gen, r'') \<Rightarrow> (Inr (child # next_gen), r'')))"

text \<open>
  Cross mode: \<open>parent_groups\<close> is a dictionary from genotype to the list of its copies, in
  the order of first occurrence (an association list).
\<close>

fun append_member :: "string \<Rightarrow> (string \<times> string list) list \<Rightarrow> (string \<times> string list) list" where
  "append_member p [] = [(p, [p])]"
| "append_member p ((k, ms) # pg) =
     (if k = p then (k, ms @ [p]) # pg else (k, ms) # append_member p pg)"

fun group_parents ::
  "string list \<Rightarrow> (string \<times> string list) list \<Rightarrow> (string \<times> string list) list" where
  "group_parents [] pg = pg"
| "group_parents (p # ps) pg = group_parents ps (append_member p pg)"

text \<open>
  \<open>while len(same_type) >= 2: pairs.append((same_type.pop(), same_type.pop()))\<close>:
  \<open>pop\<close> takes the last element.
\<close>

function pop_pairs :: "'a list \<Rightarrow> ('a \<times> 'a) list" where
  "pop_pairs same_type =
     (if length same_type \<ge> 2
      then (last same_type, last (butlast same_type)) # pop_pairs (butlast (butlast same_type))
      else [])"
  by pat_completeness auto
termination
  by (relation "measure length") auto

declare pop_pairs.simps [simp del]

text \<open>
  The double loop over \<open>keys\<close>: for the key at the head, the zips with every later group,
  then its own pairs. The \<open>pop\<close>s change only the group of the current key, which no later
  iteration reads, so the later groups are still complete when they are zipped.
\<close>

fun make_pairs :: "(string \<times> string list) list \<Rightarrow> (string \<times> string) list" where
  "make_pairs [] = []"
| "make_pairs ((k, ms) # pg) =
     concat (map (\<lambda>(k', ms'). zip ms ms') pg) @ pop_pairs ms @ make_pairs pg"

text \<open>
  \<open>breed\<close>: the exception raised, if any, the group and the random source as the call
  leaves them. \<open>self.current_generation\<close> and the history are assigned only at the end.
\<close>

definition breed ::
  "registry \<Rightarrow> rng \<Rightarrow> simulation_group \<Rightarrow> error option \<times> simulation_group \<times> rng" where
  "breed reg r grp =
     (let parents = current_generation grp in
      if length parents < 2 then (Some InsufficientPopulation, grp, r)
      else
        (case (if experiment_mode grp = ''cross''
               then (case shuffle (make_pairs (group_parents parents [])) r of
                       (pairs, r1) \<Rightarrow> breed_pairs (take (length parents div 2) pairs) reg r1)
               else (case shuffle parents r of
                       (shuffled, r1) \<Rightarrow>
                         breed_pairs
                           (map (\<lambda>i. (shuffled ! (2 * i), shuffled ! (2 * i + 1)))
                              [0 ..< length shuffled div 2]) reg r1)) of
           (Inl e, r2) \<Rightarrow> (Some e, grp, r2)
         | (Inr next_gen, r2) \<Rightarrow>
             (None,
              grp\<lparr>breed_history := breed_history grp @ [(length parents, length next_gen)],
                  current_generation := next_gen\<rparr>,
              r2)))"

section \<open>The simulation system\<close>

text \<open>What the system prints, as far as the properties below need it.\<close>

datatype message =
    GeneAdded string
  | GroupCreated string
  | OrganismsAdded int
  | OrganismsDeleted int
  | BreedResult string nat nat
  | BreedFailed error
  | ErrorMessage error
  | BadParameter

record system =
  genes :: registry
  groups :: "string \<rightharpoonup> simulation_group"
  current_group :: "string option"
  printed :: "message list"

definition GeneticSimulationSystem :: system where
  "GeneticSimulationSystem =
     \<lparr>genes = Map.empty, groups = Map.empty, current_group = None, printed = []\<rparr>"

definition print :: "message \<Rightarrow> system \<Rightarrow> system" where
  "print m sys = sys\<lparr>printed := printed sys @ [m]\<rparr>"

text \<open>\<open>add_gene\<close>: the duplicate check comes before the constructor of \<open>Gene\<close> runs.\<close>

definition add_gene :: "string list \<Rightarrow> system \<Rightarrow> error option \<times> system" where
  "add_gene args sys =
     (case args of
        [d, r, d_trait, r_trait] \<Rightarrow>
          (let gene_symbol = upper d in
           if gene_symbol \<in> dom (genes sys) then (Some DuplicateGene, sys)
           else (case Gene_init d r d_trait r_trait of
                   Inl e \<Rightarrow> (Some e, sys)
                 | Inr new_gene \<Rightarrow>
                     (None, print (GeneAdded gene_symbol)
                              (sys\<lparr>genes := (genes sys)(gene_symbol \<mapsto> new_gene)\<rparr>))))
      | _ \<Rightarrow> (Some BadArgumentCount, sys))"

text \<open>\<open>create_group\<close>: the new group becomes the current one.\<close>

definition create_group :: "string list \<Rightarrow> system \<Rightarrow> error option \<times> system" where
  "create_group args sys =
     (case args of
        [] \<Rightarrow> (Some BadArgumentCount, sys)
      | group_name # _ \<Rightarrow>
          if group_name \<in> dom (groups sys) then (Some DuplicateGroup, sys)
          else (None, print (GroupCreated group_name)
                        (sys\<lparr>groups := (groups sys)(group_name \<mapsto> SimulationGroup),
                             current_group := Some group_name\<rparr>)))"

text \<open>
  Of \<open>get_statistics\<close> only the exception is modelled: it looks up the gene of every locus
  of every genotype, \<open>genes_dict[geno[i].upper()]\<close>, which raises \<open>KeyError\<close> on a symbol
  that is not registered. The tables it returns hold floating-point ratios and are printed
  only.
\<close>

fun statistics_loci :: "string \<Rightarrow> registry \<Rightarrow> error option" where
  "statistics_loci [] reg = None"
| "statistics_loci [a] reg = (case reg [char_upper a] of None \<Rightarrow> Some KeyError | Some g \<Rightarrow> None)"
| "statistics_loci (a # b # rest) reg =
     (case reg [char_upper a] of None \<Rightarrow> Some KeyError | Some g \<Rightarrow> statistics_loci rest reg)"

fun get_statistics :: "string list \<Rightarrow> registry \<Rightarrow> error option" where
  "get_statistics [] reg = None"
| "get_statistics (geno # rest) reg =
     (case statistics_loci geno reg of Some e \<Rightarrow> Some e | None \<Rightarrow> get_statistics rest reg)"

text \<open>
  \<open>run_simulation\<close>: \<open>except ValueError\<close> around the breeding turns a \<open>ValueError\<close> into
  a printed line; any other exception leaves the function.
\<close>

definition run_simulation ::
  "string list \<Rightarrow> system \<Rightarrow> rng \<Rightarrow> error option \<times> system \<times> rng" where
  "run_simulation args sys r =
     (case (case args of
              [] \<Rightarrow> (case current_group sys of
                       None \<Rightarrow> Inl NoGroupSelected
                     | Some n \<Rightarrow> if n = [] then Inl NoGroupSelected else Inr n)
            | a # _ \<Rightarrow> Inr a) of
        Inl e \<Rightarrow> (Some e, sys, r)
      | Inr group_name \<Rightarrow>
          (case groups sys group_name of
             None \<Rightarrow> (Some UnknownGroup, sys, r)
           | Some grp \<Rightarrow>
               (case breed (genes sys) r grp of
                  (Some e, grp', r') \<Rightarrow>
                    (let sys' = sys\<lparr>groups := (groups sys)(group_name \<mapsto> grp')\<rparr> in
                     if is_ValueError e then (None, print (BreedFailed e) sys', r')
                     else (Some e, sys', r'))
                | (None, grp', r') \<Rightarrow>
                    (let sys' = print (BreedResult group_name (length (current_generation grp))
                                         (length (current_generation grp')))
                                  (sys\<lparr>groups := (groups sys)(group_name \<mapsto> grp')\<rparr>) in
                     (get_statistics (current_generation grp') (genes sys), sys', r')))))"

text \<open>
  \<open>process_command\<close> on the line \<open>/run\<close> followed by \<open>args\<close>: the handler runs inside
  \<open>try\<close>, and \<open>except Exception\<close> prints whatever it raises.
\<close>

definition process_command_run ::
  "string list \<Rightarrow> system \<Rightarrow> rng \<Rightarrow> error option \<times> system \<times> rng" where
  "process_command_run args sys r =
     (case run_simulation args sys r of
        (Some e, sys', r') \<Rightarrow> (None, print (ErrorMessage e) sys', r')
      | (None, sys', r') \<Rightarrow> (None, sys', r'))"

text \<open>
  \<open>run_for_times\<close>: \<open>count\<close> is the result of \<open>int(args[0])\<close>, \<open>None\<close> when that raises.
  The body of the loop is \<open>system.process_command("/run")\<close>, where \<open>system\<close> is not the
  receiver but a name of the module. The module binds it, to the one simulation system
  there is, only under \<open>if __name__ == "__main__"\<close>; \<open>system_bound\<close> says whether it is
  bound. When the class is imported it is not, and evaluating the name raises
  \<open>NameError\<close> in the first iteration. An exception leaving the body leaves the loop.
\<close>

fun run_loop :: "nat \<Rightarrow> bool \<Rightarrow> system \<Rightarrow> rng \<Rightarrow> error option \<times> system \<times> rng" where
  "run_loop 0 system_bound sys r = (None, sys, r)"
| "run_loop (Suc n) system_bound sys r =
     (if \<not> system_bound then (Some NameError, sys, r)
      else case process_command_run [] sys r of
             (Some e, sys', r') \<Rightarrow> (Some e, sys', r')
           | (None, sys', r') \<Rightarrow> run_loop n system_bound sys' r')"

definition run_for_times ::
  "int option \<Rightarrow> bool \<Rightarrow> system \<Rightarrow> rng \<Rightarrow> error option \<times> system \<times> rng" where
  "run_for_times count system_bound sys r =
     (case count of
        None \<Rightarrow> (None, print BadParameter sys, r)
      | Some c \<Rightarrow> run_loop (nat c) system_bound sys r)"

text \<open>
  \<open>process_command\<close> on the line \<open>/runs\<close> followed by a count: as for every command,
  \<open>except Exception\<close> prints what the handler raises.
\<close>

definition process_command_runs ::
  "int option \<Rightarrow> bool \<Rightarrow> system \<Rightarrow> rng \<Rightarrow> error option \<times> system \<times> rng" where
  "process_command_runs count system_bound sys r =
     (case run_for_times count system_bound sys r of
        (Some e, sys', r') \<Rightarrow> (None, print (ErrorMessage e) sys', r')
      | (None, sys', r') \<Rightarrow> (None, sys', r'))"

text \<open>
  The slice \<open>xs[:k]\<close> of Python: a negative \<open>k\<close> counts from the end.
\<close>

definition slice_to :: "int \<Rightarrow> 'a list \<Rightarrow> 'a list" where
  "slice_to k xs = (if 0 \<le> k then take (nat k) xs else take (nat (int (length xs) + k)) xs)"

text \<open>The \<open>del\<close> branch of \<open>change_composition\<close>, on the group it works on.\<close>

definition delete_organisms ::
  "string \<Rightarrow> int \<Rightarrow> simulation_group \<Rightarrow> error option \<times> simulation_group" where
  "delete_organisms genotype amount grp =
     (let current_count = count_list (current_generation grp) genotype in
      if int current_count < amount then (Some InsufficientQuantity, grp)
      else (None,
            grp\<lparr>current_generation :=
                  slice_to (int (length (current_generation grp)) - amount)
                    (filter (\<lambda>g. g \<noteq> genotype) (current_generation grp))\<rparr>))"

text \<open>The \<open>add\<close> branch: \<open>for _ in range(amount): group.add_organism(...)\<close>.\<close>

fun add_organisms ::
  "nat \<Rightarrow> string \<Rightarrow> registry \<Rightarrow> simulation_group \<Rightarrow> error option \<times> simulation_group" where
  "add_organisms 0 genotype reg grp = (None, grp)"
| "add_organisms (Suc n) genotype reg grp =
     (case add_organism genotype reg grp of
        (Some e, grp') \<Rightarrow> (Some e, grp')
      | (None, grp') \<Rightarrow> add_organisms n genotype reg grp')"

text \<open>
  \<open>change_composition\<close>, after the arguments are unpacked: \<open>amount\<close> is \<open>int(args[3])\<close>.
\<close>

definition change_composition ::
  "string \<Rightarrow> string \<Rightarrow> string \<Rightarrow> int \<Rightarrow> system \<Rightarrow> error option \<times> system" where
  "change_composition group_name genotype operation amount sys =
     (case groups sys group_name of
        None \<Rightarrow> (Some UnknownGroup, sys)
      | Some grp \<Rightarrow>
          (case validate genotype (genes sys) of
             Some e \<Rightarrow> (Some (InvalidGenotype e), sys)
           | None \<Rightarrow>
               if gene_length grp > 0 \<and> length genotype \<noteq> gene_length grp
               then (Some LengthMismatch, sys)
               else if operation = ''add'' then
                 (case add_organisms (nat amount) genotype (genes sys) grp of
                    (Some e, grp') \<Rightarrow>
                      (Some e, sys\<lparr>groups := (groups sys)(group_name \<mapsto> grp')\<rparr>)
                  | (None, grp') \<Rightarrow>
                      (None, print (OrganismsAdded amount)
                               (sys\<lparr>groups := (groups sys)(group_name \<mapsto> grp')\<rparr>)))
               else if operation = ''del'' then
                 (case delete_organisms genotype amount grp of
                    (Some e, grp') \<Rightarrow>
                      (Some e, sys\<lparr>groups := (groups sys)(group_name \<mapsto> grp')\<rparr>)
                  | (None, grp') \<Rightarrow>
                      (None, print (OrganismsDeleted amount)
                               (sys\<lparr>groups := (groups sys)(group_name \<mapsto> grp')\<rparr>)))
               else (Some InvalidOperation, sys)))"

section \<open>Notions of the specification\<close>

text \<open>
  The registries the system can build keep the two alleles of every gene apart
  (see \<open>add_gene_alleles_distinct\<close> below).
\<close>

definition alleles_distinct :: "registry \<Rightarrow> bool" where
  "alleles_distinct reg \<longleftrightarrow> (\<forall>k g. reg k = Some g \<longrightarrow> dominant g \<noteq> recessive g)"

text \<open>
  What the specification of the validator says about one locus \<open>ab\<close>: the uppercase form
  of \<open>a\<close> must name a registered gene, else \<open>UnknownGene\<close>; both characters must be alleles
  of that gene, else \<open>InvalidAllele\<close>; a heterozygous locus written recessive-then-dominant
  is a \<open>BadAlleleOrder\<close>.
\<close>

definition locus_error :: "registry \<Rightarrow> char \<Rightarrow> char \<Rightarrow> error option" where
  "locus_error reg a b =
     (case reg [char_upper a] of
        None \<Rightarrow> Some UnknownGene
      | Some g \<Rightarrow>
          if [a] \<notin> {dominant g, recessive g} \<or> [b] \<notin> {dominant g, recessive g}
          then Some InvalidAllele
          else if a \<noteq> b \<and> [a] = recessive g \<and> [b] = dominant g then Some BadAlleleOrder
          else None)"

text \<open>
  The gene symbols of a genotype, one per locus: the uppercase forms of the characters at
  the even positions, as \<open>initialize_structure\<close> reads them.
\<close>

fun locus_symbols :: "string \<Rightarrow> string list" where
  "locus_symbols [] = []"
| "locus_symbols [a] = [[char_upper a]]"
| "locus_symbols (a # b # rest) = [char_upper a] # locus_symbols rest"

text \<open>
  The operations on one population, each with the arguments it is called with; \<open>apply_op\<close>
  gives the population as the call leaves it, whether it succeeds or raises.
\<close>

datatype group_op =
    Add string registry
  | Delete string int
  | Breed registry rng
  | SetMode string

fun apply_op :: "group_op \<Rightarrow> simulation_group \<Rightarrow> simulation_group" where
  "apply_op (Add gs reg) grp = snd (add_organism gs reg grp)"
| "apply_op (Delete gs amount) grp = snd (delete_organisms gs amount grp)"
| "apply_op (Breed reg r) grp = fst (snd (breed reg r grp))"
| "apply_op (SetMode m) grp = snd (set_experiment_mode m grp)"

text \<open>
  The pairs \<open>breed\<close> takes its children from, with the random source after the shuffle:
  the two branches of \<open>breed\<close> up to the calls of \<open>_create_child\<close> (see
  \<open>breed_breeding_pairs\<close> below).
\<close>

definition breeding_pairs :: "simulation_group \<Rightarrow> rng \<Rightarrow> (string \<times> string) list \<times> rng" where
  "breeding_pairs grp r =
     (if experiment_mode grp = ''cross''
      then (case shuffle (make_pairs (group_parents (current_generation grp) [])) r of
              (pairs, r1) \<Rightarrow> (take (length (current_generation grp) div 2) pairs, r1))
      else (case shuffle (current_generation grp) r of
              (shuffled, r1) \<Rightarrow>
                (map (\<lambda>i. (shuffled ! (2 * i), shuffled ! (2 * i + 1)))
                   [0 ..< length shuffled div 2], r1)))"

text \<open>The genotypes held in the lists of \<open>parent_groups\<close>.\<close>

fun members :: "(string \<times> string list) list \<Rightarrow> string set" where
  "members [] = {}"
| "members ((k, ms) # pg) = set ms \<union> members pg"

text \<open>
  A population is uniform when every genotype in it has the stored length and that length
  is even.
\<close>

definition uniform_population :: "simulation_group \<Rightarrow> bool" where
  "uniform_population grp \<longleftrightarrow>
     list_all (\<lambda>g. length g = gene_length grp \<and> even (length g)) (current_generation grp)"

text \<open>
  In a registry of case pairs the recessive allele of every gene is the same letter as
  the dominant one. \<open>Gene.__init__\<close> does not ask for it.
\<close>

definition case_pairs :: "registry \<Rightarrow> bool" where
  "case_pairs reg \<longleftrightarrow> (\<forall>k g. reg k = Some g \<longrightarrow> upper (recessive g) = upper (dominant g))"

text \<open>
  What the specification says of a child, locus by locus: it carries one allele of the
  first parent's two and one of the second parent's two, and a heterozygous locus is
  written with the dominant allele first.
\<close>

fun inherits :: "registry \<Rightarrow> string \<Rightarrow> string \<Rightarrow> string \<Rightarrow> bool" where
  "inherits reg [] [] [] = True"
| "inherits reg (x # y # child) (a # b # p1) (c # d # p2) =
     ((\<exists>g1 \<in> set [a, b]. \<exists>g2 \<in> set [c, d]. [x, y] = [g1, g2] \<or> [x, y] = [g2, g1]) \<and>
      (x \<noteq> y \<longrightarrow> (\<exists>g. reg [char_upper a] = Some g \<and> [x] = dominant g)) \<and>
      inherits reg child p1 p2)"
| "inherits reg child p1 p2 = False"

section \<open>Example states\<close>

definition gene_A :: gene where
  "gene_A = \<lparr>dominant = ''A'', recessive = ''a'', dom_trait = ''tall'', rec_trait = ''short''\<rparr>"

definition gene_B :: gene where
  "gene_B = \<lparr>dominant = ''B'', recessive = ''b'', dom_trait = ''round'', rec_trait = ''wrinkled''\<rparr>"

definition registry_AB :: registry where
  "registry_AB = [''A'' \<mapsto> gene_A, ''B'' \<mapsto> gene_B]"

definition group_of :: "string list \<Rightarrow> simulation_group" where
  "group_of gens =
     \<lparr>current_generation = gens, gene_structure = [gene_A], gene_length = 2,
      experiment_mode = ''random'', breed_history = []\<rparr>"

definition system_of :: "string list \<Rightarrow> system" where
  "system_of gens =
     \<lparr>genes = registry_AB, groups = [''G'' \<mapsto> group_of gens], current_group = Some ''G'',
      printed = []\<rparr>"

definition group_AaBb :: simulation_group where
  "group_AaBb =
     \<lparr>current_generation = [''AaBb''], gene_structure = [gene_A, gene_B], gene_length = 4,
      experiment_mode = ''random'', breed_history = []\<rparr>"

definition zero_rng :: rng where
  "zero_rng = (\<lambda>i. 0)"

text \<open>
  A gene whose two alleles are different letters, as \<open>/add A b tall short\<close> registers it,
  alone and beside a gene \<open>B\<close> with recessive allele \<open>c\<close>; the group that
  \<open>/change G Ab add 2\<close> builds from a new one.
\<close>

definition gene_Ab :: gene where
  "gene_Ab = \<lparr>dominant = ''A'', recessive = ''b'', dom_trait = ''tall'', rec_trait = ''short''\<rparr>"

definition gene_Bc :: gene where
  "gene_Bc = \<lparr>dominant = ''B'', recessive = ''c'', dom_trait = ''round'', rec_trait = ''flat''\<rparr>"

definition registry_Ab :: registry where
  "registry_Ab = [''A'' \<mapsto> gene_Ab]"

definition registry_Ab_Bc :: registry where
  "registry_Ab_Bc = [''A'' \<mapsto> gene_Ab, ''B'' \<mapsto> gene_Bc]"

definition group_Ab :: simulation_group where
  "group_Ab =
     \<lparr>current_generation = [''Ab'', ''Ab''], gene_structure = [gene_Ab], gene_length = 2,
      experiment_mode = ''random'', breed_history = []\<rparr>"

text \<open>
  Two more random sources: every draw is 1; the first draw is 1 and every later one 0.
\<close>

definition one_rng :: rng where
  "one_rng = (\<lambda>i. 1)"

definition one_zero_rng :: rng where
  "one_zero_rng = (\<lambda>i. if i = 0 then 1 else 0)"

text \<open>
  A sequence of operations on a new population: two of them fail (\<open>AaBb\<close> has the wrong
  length, there is no \<open>AA\<close> to delete).
\<close>

definition population_ops :: "group_op list" where
  "population_ops =
     [Add ''Aa'' registry_AB, Add ''AaBb'' registry_AB, Add ''aa'' registry_AB,
      Delete ''AA'' 1, Breed registry_AB zero_rng]"

section \<open>Evaluation on the example states\<close>

lemma char_upper_A [simp]: "char_upper CHR ''A'' = CHR ''A''" by code_simp
lemma char_upper_a [simp]: "char_upper CHR ''a'' = CHR ''A''" by code_simp
lemma char_upper_B [simp]: "char_upper CHR ''B'' = CHR ''B''" by code_simp
lemma char_upper_b [simp]: "char_upper CHR ''b'' = CHR ''B''" by code_simp
lemma char_lower_a [simp]: "char_lower CHR ''a'' = CHR ''a''" by code_simp
lemma char_lower_b [simp]: "char_lower CHR ''b'' = CHR ''b''" by code_simp
lemma char_lower_A [simp]: "char_lower CHR ''A'' = CHR ''a''" by code_simp
lemma char_lower_B [simp]: "char_lower CHR ''B'' = CHR ''b''" by code_simp

lemmas example_defs =
  gene_A_def gene_B_def registry_AB_def group_of_def system_of_def zero_rng_def
  group_AaBb_def

text \<open>
  The example system is the one the commands \<open>/add A a tall short\<close>,
  \<open>/add B b round wrinkled\<close>, \<open>/create G\<close> and \<open>/change G AA add 3\<close> build.
\<close>

lemma system_of_reached:
  "(case add_gene [''A'', ''a'', ''tall'', ''short''] GeneticSimulationSystem of (e1, s1) \<Rightarrow>
    case add_gene [''B'', ''b'', ''round'', ''wrinkled''] s1 of (e2, s2) \<Rightarrow>
    case create_group [''G''] s2 of (e3, s3) \<Rightarrow>
    case change_composition ''G'' ''AA'' ''add'' 3 s3 of (e4, s4) \<Rightarrow>
      (e1, e2, e3, e4, s4\<lparr>printed := []\<rparr>)) =
   (None, None, None, None, system_of [''AA'', ''AA'', ''AA''])"
  by (simp add: example_defs add_gene_def Gene_init_def create_group_def change_composition_def
      GeneticSimulationSystem_def upper_def lower_def print_def validate_def add_organism_def
      initialize_structure_def SimulationGroup_def eval_nat_numeral Let_def)

section \<open>Deleting organisms\<close>

text \<open>
  C1 (the code departs from it): \<open>change_composition\<close> with \<open>del\<close> is to remove exactly
  \<open>amount\<close> occurrences of the genotype. On a group of three \<open>AA\<close>, deleting one \<open>AA\<close>
  leaves the group empty: the comprehension drops every occurrence, and the slice to
  \<open>len - amount\<close> elements that follows has nothing left to cut.
\<close>

theorem change_composition_del_removes_all:
  "change_composition ''G'' ''AA'' ''del'' 1 (system_of [''AA'', ''AA'', ''AA'']) =
     (None, (system_of [])\<lparr>printed := [OrganismsDeleted 1]\<rparr>)"
  by (simp add: example_defs change_composition_def validate_def delete_organisms_def
      slice_to_def print_def)

section \<open>Defining genes\<close>

text \<open>
  C3 as stated fails: the constructor of \<open>Gene\<close> compares the two allele arguments as they
  are written, so dominant \<open>A\<close> with recessive \<open>a\<close> is accepted; and a registered symbol is
  reported before the alleles are looked at.
\<close>

theorem add_gene_accepts_case_variants:
  "add_gene [''A'', ''a'', ''tall'', ''short''] GeneticSimulationSystem =
     (None, \<lparr>genes = [''A'' \<mapsto> gene_A], groups = Map.empty, current_group = None,
             printed = [GeneAdded ''A'']\<rparr>) \<and>
   add_gene [''A'', ''A'', ''tall'', ''short'']
       \<lparr>genes = [''A'' \<mapsto> gene_A], groups = Map.empty, current_group = None, printed = []\<rparr> =
     (Some DuplicateGene,
      \<lparr>genes = [''A'' \<mapsto> gene_A], groups = Map.empty, current_group = None, printed = []\<rparr>)"
  by (simp add: add_gene_def Gene_init_def GeneticSimulationSystem_def upper_def lower_def
      print_def gene_A_def Let_def)

text \<open>
  C3 (amended): gene definition fails with \<open>DuplicateGene\<close> if the uppercase form of the
  dominant argument is already registered; otherwise it fails with \<open>InvalidGene\<close> if either
  allele argument is not exactly one character or if the two arguments are the same
  string; otherwise it stores, under the uppercase form of the dominant argument, the gene
  whose dominant allele is that symbol and whose recessive allele is the lowercase form of
  the recessive argument.
\<close>

theorem add_gene_cases:
  "add_gene [d, r, d_trait, r_trait] sys =
     (if upper d \<in> dom (genes sys) then (Some DuplicateGene, sys)
      else if length d \<noteq> 1 \<or> length r \<noteq> 1 \<or> d = r then (Some InvalidGene, sys)
      else (None, print (GeneAdded (upper d))
                    (sys\<lparr>genes := (genes sys)(upper d \<mapsto>
                           \<lparr>dominant = upper d, recessive = lower r,
                            dom_trait = d_trait, rec_trait = r_trait\<rparr>)\<rparr>)))"
  by (simp add: add_gene_def Gene_init_def Let_def)

theorem add_gene_cases_witness:
  "add_gene [''b'', ''B'', ''round'', ''wrinkled''] GeneticSimulationSystem =
     (None, \<lparr>genes = [''B'' \<mapsto> gene_B], groups = Map.empty, current_group = None,
             printed = [GeneAdded ''B'']\<rparr>)"
  using add_gene_cases [of "''b''" "''B''" "''round''" "''wrinkled''" GeneticSimulationSystem]
  by (simp add: GeneticSimulationSystem_def upper_def lower_def print_def gene_B_def)

section \<open>Breeding a population that is too small\<close>

text \<open>
  C7: for every population with fewer than two organisms, \<open>breed\<close> fails with
  \<open>InsufficientPopulation\<close> and leaves the organism list, the locked structure, the
  breeding history (the whole group) and the random source as they were.
\<close>

theorem breed_insufficient_population:
  "length (current_generation grp) < 2 \<Longrightarrow>
   breed reg r grp = (Some InsufficientPopulation, grp, r)"
  by (simp add: breed_def)

theorem breed_insufficient_population_witness:
  "length (current_generation (group_of [''Aa''])) < 2 \<and>
   breed registry_AB zero_rng (group_of [''Aa'']) =
     (Some InsufficientPopulation, group_of [''Aa''], zero_rng)"
  using breed_insufficient_population [of "group_of [''Aa'']" registry_AB zero_rng]
  by (simp add: group_of_def)

section \<open>Repeated runs\<close>

lemma process_command_run_no_error: "fst (process_command_run args sys r) = None"
  by (simp add: process_command_run_def split: prod.splits option.splits)

lemma run_simulation_printed:
  "run_simulation args sys r = (st, sys', r') \<Longrightarrow>
   (st = None \<longrightarrow> length (printed sys) < length (printed sys')) \<and>
   (st \<noteq> None \<longrightarrow> length (printed sys) \<le> length (printed sys'))"
  by (auto simp: run_simulation_def print_def Let_def
      split: list.splits option.splits sum.splits prod.splits if_splits)

lemma process_command_run_printed:
  "process_command_run args sys r = (st, sys', r') \<Longrightarrow>
   length (printed sys) < length (printed sys')"
  by (auto simp: process_command_run_def print_def split: prod.splits option.splits
      dest!: run_simulation_printed)

lemma run_loop_funpow:
  "run_loop n True sys r =
     (None, ((\<lambda>(s, q). snd (process_command_run [] s q)) ^^ n) (sys, r))"
proof (induction n arbitrary: sys r)
  case 0
  show ?case by simp
next
  case (Suc n)
  obtain st sys' r' where step: "process_command_run [] sys r = (st, sys', r')"
    by (cases "process_command_run [] sys r") auto
  with process_command_run_no_error [of "[]" sys r] have "st = None" by simp
  with step Suc show ?case by (simp add: funpow_Suc_right del: funpow.simps)
qed

lemma run_loop_printed:
  "run_loop n True sys r = (st, sys', r') \<Longrightarrow>
   length (printed sys) + n \<le> length (printed sys')"
proof (induction n arbitrary: sys r)
  case 0
  then show ?case by simp
next
  case (Suc n)
  obtain st1 sys1 r1 where step: "process_command_run [] sys r = (st1, sys1, r1)"
    by (cases "process_command_run [] sys r") auto
  with process_command_run_no_error [of "[]" sys r] have "st1 = None" by simp
  with step Suc.prems have "run_loop n True sys1 r1 = (st, sys', r')" by simp
  from Suc.IH [OF this] process_command_run_printed [OF step] show ?case by simp
qed

text \<open>
  When the name \<open>system\<close> is not bound, a positive count runs no command at all: the first
  iteration raises \<open>NameError\<close>, which \<open>process_command\<close> prints for the line \<open>/runs\<close>.
\<close>

lemma run_for_times_unbound:
  "run_for_times (Some c) False sys r =
     (if c \<le> 0 then (None, sys, r) else (Some NameError, sys, r))"
proof (cases "nat c")
  case 0
  then show ?thesis by (simp add: run_for_times_def)
next
  case (Suc n)
  then show ?thesis by (simp add: run_for_times_def)
qed

lemma process_command_runs_unbound:
  "0 < c \<Longrightarrow>
   process_command_runs (Some c) False sys r = (None, print (ErrorMessage NameError) sys, r)"
  by (simp add: process_command_runs_def run_for_times_unbound)

text \<open>
  C2 as stated fails: when the program runs as the script, so that \<open>system\<close> is the
  simulation system itself, an error raised by a run does not leave \<open>process_command\<close>
  and cannot end the loop of \<open>run_for_times\<close>. On a group of one organism, \<open>/runs 3\<close>
  fails to breed three times, prints the failure three times and raises nothing.
\<close>

theorem run_for_times_continues_after_failure:
  "run_for_times (Some 3) True (system_of [''Aa'']) zero_rng =
     (None,
      (system_of [''Aa''])\<lparr>printed := [BreedFailed InsufficientPopulation,
         BreedFailed InsufficientPopulation, BreedFailed InsufficientPopulation]\<rparr>,
      zero_rng)"
  by (simp add: run_for_times_def eval_nat_numeral process_command_run_def run_simulation_def
      breed_def system_of_def group_of_def print_def)

text \<open>
  C2 (amended): when the program runs as the script (the name \<open>system\<close> is bound to the
  simulation system that receives the command), \<open>run_for_times\<close> invokes the
  run-one-generation command sequentially, \<open>count\<close> times for every count and every state
  (no times for a count below one). The command never raises: an error during an iteration
  is printed inside \<open>process_command\<close>, and the remaining repetitions are still carried
  out, so the final state is that of \<open>count\<close> successive commands and every iteration has
  printed at least one line.
\<close>

theorem run_for_times_runs_every_iteration:
  "fst (process_command_run args sys r) = None \<and>
   run_for_times (Some c) True sys r =
     (None, ((\<lambda>(s, q). snd (process_command_run [] s q)) ^^ nat c) (sys, r)) \<and>
   length (printed sys) + nat c
     \<le> length (printed (fst (snd (run_for_times (Some c) True sys r))))"
proof -
  obtain st sys' r' where res: "run_loop (nat c) True sys r = (st, sys', r')"
    by (cases "run_loop (nat c) True sys r") auto
  from run_loop_printed [OF res] res show ?thesis
    by (simp add: process_command_run_no_error run_for_times_def run_loop_funpow)
qed

lemma run_for_times_example:
  "printed (fst (snd (run_for_times (Some 2) True (system_of [''Aa'', ''Aa'', ''AA''])
                        zero_rng))) =
     [BreedResult ''G'' 3 1, BreedFailed InsufficientPopulation]"
  by code_simp

theorem run_for_times_runs_every_iteration_witness:
  "fst (run_for_times (Some 2) True (system_of [''Aa'', ''Aa'', ''AA'']) zero_rng) = None \<and>
   printed (fst (snd (run_for_times (Some 2) True (system_of [''Aa'', ''Aa'', ''AA''])
                        zero_rng))) =
     [BreedResult ''G'' 3 1, BreedFailed InsufficientPopulation] \<and>
   length (printed (system_of [''Aa'', ''Aa'', ''AA''])) + nat 2 \<le>
     length (printed (fst (snd (run_for_times (Some 2) True
                                  (system_of [''Aa'', ''Aa'', ''AA'']) zero_rng))))"
  using run_for_times_runs_every_iteration [of "[]" "system_of [''Aa'', ''Aa'', ''AA'']" zero_rng 2]
    run_for_times_example
  by simp

section \<open>The validator\<close>

lemma validate_loci_step:
  "alleles_distinct reg \<Longrightarrow>
   validate_loci (a # b # rest) reg =
     (case locus_error reg a b of Some e \<Rightarrow> Some e | None \<Rightarrow> validate_loci rest reg)"
proof (cases "reg [char_upper a]")
  case None
  then show ?thesis by (simp add: locus_error_def)
next
  case (Some g)
  assume "alleles_distinct reg"
  with Some have "dominant g \<noteq> recessive g" by (simp add: alleles_distinct_def)
  with Some show ?thesis by (auto simp: locus_error_def)
qed

lemma locus_error_cases:
  "locus_error reg a b = Some e \<Longrightarrow> e = UnknownGene \<or> e = InvalidAllele \<or> e = BadAlleleOrder"
  by (auto simp: locus_error_def split: option.splits if_splits)

lemma all_less_Suc_shift: "(\<forall>i < Suc n. P i) \<longleftrightarrow> P 0 \<and> (\<forall>i < n. P (Suc i))"
  by (metis less_Suc_eq_0_disj Suc_less_eq zero_less_Suc)

lemma validate_loci_accepts:
  "alleles_distinct reg \<Longrightarrow> even (length gs) \<Longrightarrow>
   validate_loci gs reg = None \<longleftrightarrow>
     (\<forall>i < length gs div 2. locus_error reg (gs ! (2 * i)) (gs ! (2 * i + 1)) = None)"
proof (induction gs rule: induct_list012)
  case 1
  then show ?case by simp
next
  case (2 a)
  then show ?case by simp
next
  case (3 a b rest)
  from "3.prems" have ev: "even (length rest)" by simp
  note IH = "3.IH"(1) [OF "3.prems"(1) ev]
  show ?case
  proof (cases "locus_error reg a b")
    case None
    with "3.prems" have "validate_loci (a # b # rest) reg = validate_loci rest reg"
      by (simp add: validate_loci_step del: validate_loci.simps)
    with IH None show ?thesis by (simp add: all_less_Suc_shift del: validate_loci.simps)
  next
    case (Some e)
    with "3.prems" have "validate_loci (a # b # rest) reg = Some e"
      by (simp add: validate_loci_step del: validate_loci.simps)
    with Some show ?thesis by (auto simp: all_less_Suc_shift simp del: validate_loci.simps)
  qed
qed

lemma validate_loci_first_error:
  "alleles_distinct reg \<Longrightarrow> even (length gs) \<Longrightarrow> validate_loci gs reg = Some e \<Longrightarrow>
   \<exists>i < length gs div 2. locus_error reg (gs ! (2 * i)) (gs ! (2 * i + 1)) = Some e \<and>
     (\<forall>j < i. locus_error reg (gs ! (2 * j)) (gs ! (2 * j + 1)) = None)"
proof (induction gs rule: induct_list012)
  case 1
  then show ?case by simp
next
  case (2 a)
  then show ?case by simp
next
  case (3 a b rest)
  from "3.prems" have ev: "even (length rest)" by simp
  show ?case
  proof (cases "locus_error reg a b")
    case None
    with "3.prems" have rest: "validate_loci rest reg = Some e"
      by (simp add: validate_loci_step del: validate_loci.simps)
    from "3.IH"(1) [OF "3.prems"(1) ev rest]
    obtain i where i: "i < length rest div 2"
      "locus_error reg (rest ! (2 * i)) (rest ! (2 * i + 1)) = Some e"
      "\<forall>j < i. locus_error reg (rest ! (2 * j)) (rest ! (2 * j + 1)) = None"
      by blast
    have "Suc i < length (a # b # rest) div 2" using i(1) by simp
    moreover have "locus_error reg ((a # b # rest) ! (2 * Suc i)) ((a # b # rest) ! (2 * Suc i + 1)) = Some e"
      using i(2) by simp
    moreover have "\<forall>j < Suc i. locus_error reg ((a # b # rest) ! (2 * j)) ((a # b # rest) ! (2 * j + 1)) = None"
      using i(3) None by (simp add: all_less_Suc_shift)
    ultimately show ?thesis by blast
  next
    case (Some e')
    with "3.prems" have "e' = e" by (simp add: validate_loci_step del: validate_loci.simps)
    with Some have "locus_error reg ((a # b # rest) ! (2 * 0)) ((a # b # rest) ! (2 * 0 + 1)) = Some e"
      by simp
    then show ?thesis by (intro exI [of _ 0]) simp
  qed
qed

text \<open>
  C6: the validator fails with \<open>MalformedGenotype\<close> if and only if the length of the string
  is odd; it accepts exactly when the length is even and no locus has an error; and any
  other failure is the error of the first locus, scanning in steps of two, that has one:
  \<open>UnknownGene\<close>, \<open>InvalidAllele\<close> or \<open>BadAlleleOrder\<close> as the specification describes them.
  The validator is a function of the string and the registry and returns nothing but the
  error, so it cannot change the registry.
\<close>

theorem validate_characterisation:
  assumes "alleles_distinct reg"
  shows "(validate gs reg = Some MalformedGenotype \<longleftrightarrow> odd (length gs)) \<and>
    (validate gs reg = None \<longleftrightarrow>
       even (length gs) \<and>
       (\<forall>i < length gs div 2. locus_error reg (gs ! (2 * i)) (gs ! (2 * i + 1)) = None)) \<and>
    (\<forall>e. validate gs reg = Some e \<and> e \<noteq> MalformedGenotype \<longrightarrow>
       e \<in> {UnknownGene, InvalidAllele, BadAlleleOrder} \<and>
       (\<exists>i < length gs div 2. locus_error reg (gs ! (2 * i)) (gs ! (2 * i + 1)) = Some e \<and>
          (\<forall>j < i. locus_error reg (gs ! (2 * j)) (gs ! (2 * j + 1)) = None)))"
proof (cases "even (length gs)")
  case True
  then have v: "validate gs reg = validate_loci gs reg" by (simp add: validate_def)
  have no_malformed: "validate_loci gs reg \<noteq> Some MalformedGenotype"
    using validate_loci_first_error [OF assms True] locus_error_cases by fastforce
  show ?thesis
    using True v no_malformed validate_loci_accepts [OF assms True]
      validate_loci_first_error [OF assms True] locus_error_cases
    by (auto; blast)
next
  case False
  then show ?thesis by (simp add: validate_def odd_iff_mod_2_eq_one)
qed


lemma registry_AB_alleles_distinct: "alleles_distinct registry_AB"
  by (auto simp: alleles_distinct_def registry_AB_def gene_A_def gene_B_def split: if_splits)

theorem validate_characterisation_witness:
  "alleles_distinct registry_AB \<and>
   validate ''AaBB'' registry_AB = None \<and>
   validate ''AaB'' registry_AB = Some MalformedGenotype \<and>
   locus_error registry_AB (''AaBB'' ! (2 * 0)) (''AaBB'' ! (2 * 0 + 1)) = None \<and>
   locus_error registry_AB (''AaBB'' ! (2 * 1)) (''AaBB'' ! (2 * 1 + 1)) = None"
  using validate_characterisation [OF registry_AB_alleles_distinct, of "''AaBB''"]
    validate_characterisation [OF registry_AB_alleles_distinct, of "''AaB''"]
    registry_AB_alleles_distinct
  by (simp add: validate_def registry_AB_def gene_A_def gene_B_def locus_error_def)

section \<open>Registries the system builds\<close>

lemma validate_examples:
  "validate ''aA'' registry_AB = Some BadAlleleOrder"
  "validate ''AaCc'' registry_AB = Some UnknownGene"
  "validate ''AB'' registry_AB = Some InvalidAllele"
  by code_simp+

lemma char_upper_neq_char_lower: "c \<noteq> c' \<Longrightarrow> char_upper c \<noteq> char_lower c'"
  by (auto simp: char_upper_def char_lower_def split: if_splits)

lemma Gene_init_alleles:
  "Gene_init d r d_trait r_trait = Inr g \<Longrightarrow> dominant g = upper d \<and> dominant g \<noteq> recessive g"
  by (cases d; cases r)
    (auto simp: Gene_init_def upper_def lower_def char_upper_neq_char_lower split: if_splits)

lemma add_gene_alleles_distinct:
  assumes "alleles_distinct (genes sys)" and "add_gene args sys = (st, sys')"
  shows "alleles_distinct (genes sys')"
proof -
  from assms(2) show ?thesis
    using assms(1) Gene_init_alleles
    by (fastforce simp: add_gene_def Let_def print_def alleles_distinct_def
        split: list.splits if_splits sum.splits)
qed

lemma initial_alleles_distinct: "alleles_distinct (genes GeneticSimulationSystem)"
  by (simp add: alleles_distinct_def GeneticSimulationSystem_def)

section \<open>Duplicate gene symbols\<close>

lemma initialize_loop_duplicate:
  "\<not> distinct (locus_symbols gs) \<or> set (locus_symbols gs) \<inter> seen \<noteq> {} \<Longrightarrow>
   fst (initialize_loop gs reg seen acc) \<in> {Some DuplicateLocus, Some UnknownGene} \<and>
   (set (locus_symbols gs) \<subseteq> dom reg \<longrightarrow>
      fst (initialize_loop gs reg seen acc) = Some DuplicateLocus)"
proof (induction gs reg seen acc rule: initialize_loop.induct)
  case (1 reg seen acc)
  then show ?case by simp
next
  case (2 a reg seen acc)
  then show ?case by (auto split: option.splits)
next
  case (3 a b rest reg seen acc)
  show ?case
  proof (cases "[char_upper a] \<in> seen")
    case True
    then show ?thesis by simp
  next
    case False
    show ?thesis
    proof (cases "reg [char_upper a]")
      case None
      with False show ?thesis by auto
    next
      case (Some g)
      from "3.prems" False
      have "\<not> distinct (locus_symbols rest) \<or>
            set (locus_symbols rest) \<inter> insert [char_upper a] seen \<noteq> {}"
        by auto
      from "3.IH" [OF False Some this] False Some show ?thesis by auto
    qed
  qed
qed

text \<open>
  C9: \<open>add_organism\<close> into an empty population fails whenever the genotype has the same gene
  symbol at more than one locus: structure initialization rejects it (with the duplicate
  error when every symbol is registered; an unregistered symbol met earlier is reported
  instead) and nothing is added. A non-empty population accepts every valid genotype of
  the locked length, duplicate symbols or not, since only initialization looks for them.
\<close>

theorem duplicate_symbol_checked_only_at_initialization:
  "(current_generation grp = [] \<and> \<not> distinct (locus_symbols gs) \<longrightarrow>
      fst (add_organism gs reg grp) \<in> {Some DuplicateLocus, Some UnknownGene} \<and>
      (set (locus_symbols gs) \<subseteq> dom reg \<longrightarrow>
         fst (add_organism gs reg grp) = Some DuplicateLocus) \<and>
      current_generation (snd (add_organism gs reg grp)) = []) \<and>
   (current_generation grp \<noteq> [] \<and> validate gs reg = None \<and> length gs = gene_length grp \<longrightarrow>
      add_organism gs reg grp =
        (None, grp\<lparr>current_generation := current_generation grp @ [gs]\<rparr>))"
proof (intro conjI impI)
  assume a: "current_generation grp = [] \<and> \<not> distinct (locus_symbols gs)"
  obtain st acc where l: "initialize_loop gs reg {} [] = (st, acc)"
    by (cases "initialize_loop gs reg {} []") auto
  from a initialize_loop_duplicate [of gs "{}" reg "[]"] l
  have st: "st \<in> {Some DuplicateLocus, Some UnknownGene}"
    "set (locus_symbols gs) \<subseteq> dom reg \<longrightarrow> st = Some DuplicateLocus"
    by auto
  from st(1) obtain e where e: "st = Some e" by auto
  with a l have r: "add_organism gs reg grp = (Some e, grp\<lparr>gene_structure := acc\<rparr>)"
    by (simp add: add_organism_def initialize_structure_def)
  from r e st(1) show "fst (add_organism gs reg grp) \<in> {Some DuplicateLocus, Some UnknownGene}"
    by simp
  from r a show "current_generation (snd (add_organism gs reg grp)) = []" by simp
  assume "set (locus_symbols gs) \<subseteq> dom reg"
  with st(2) r e show "fst (add_organism gs reg grp) = Some DuplicateLocus" by simp
next
  assume "current_generation grp \<noteq> [] \<and> validate gs reg = None \<and> length gs = gene_length grp"
  then show "add_organism gs reg grp =
    (None, grp\<lparr>current_generation := current_generation grp @ [gs]\<rparr>)"
    by (simp add: add_organism_def)
qed

lemma add_organism_examples:
  "add_organism ''AaAa'' registry_AB SimulationGroup =
     (Some DuplicateLocus, SimulationGroup\<lparr>gene_structure := [gene_A]\<rparr>)"
  "add_organism ''AaBb'' registry_AB SimulationGroup = (None, group_AaBb)"
  "add_organism ''AaAa'' registry_AB group_AaBb =
     (None, group_AaBb\<lparr>current_generation := [''AaBb'', ''AaAa'']\<rparr>)"
  by (simp_all add: add_organism_def initialize_structure_def validate_def SimulationGroup_def
      registry_AB_def gene_A_def gene_B_def group_AaBb_def)

theorem duplicate_symbol_checked_only_at_initialization_witness:
  "current_generation SimulationGroup = [] \<and> \<not> distinct (locus_symbols ''AaAa'') \<and>
   add_organism ''AaAa'' registry_AB SimulationGroup =
     (Some DuplicateLocus, SimulationGroup\<lparr>gene_structure := [gene_A]\<rparr>) \<and>
   current_generation group_AaBb \<noteq> [] \<and> validate ''AaAa'' registry_AB = None \<and>
   length ''AaAa'' = gene_length group_AaBb \<and>
   add_organism ''AaAa'' registry_AB group_AaBb =
     (None, group_AaBb\<lparr>current_generation := [''AaBb'', ''AaAa'']\<rparr>)"
  using duplicate_symbol_checked_only_at_initialization [of SimulationGroup "''AaAa''" registry_AB]
    duplicate_symbol_checked_only_at_initialization [of group_AaBb "''AaAa''" registry_AB]
    add_organism_examples
  by (simp add: SimulationGroup_def validate_def registry_AB_def gene_A_def gene_B_def
      group_AaBb_def)

section \<open>The locked structure\<close>

lemma delete_organisms_structure:
  "gene_structure (snd (delete_organisms gs amount grp)) = gene_structure grp \<and>
   gene_length (snd (delete_organisms gs amount grp)) = gene_length grp"
  by (simp add: delete_organisms_def Let_def)

lemma breed_structure:
  "gene_structure (fst (snd (breed reg r grp))) = gene_structure grp \<and>
   gene_length (fst (snd (breed reg r grp))) = gene_length grp"
  by (simp add: breed_def Let_def split: prod.splits sum.splits)

lemma set_experiment_mode_structure:
  "gene_structure (snd (set_experiment_mode m grp)) = gene_structure grp \<and>
   gene_length (snd (set_experiment_mode m grp)) = gene_length grp"
  by (simp add: set_experiment_mode_def)

lemma add_organism_nonempty_structure:
  "current_generation grp \<noteq> [] \<Longrightarrow>
   gene_structure (snd (add_organism gs reg grp)) = gene_structure grp \<and>
   gene_length (snd (add_organism gs reg grp)) = gene_length grp"
  by (simp add: add_organism_def split: option.splits)

lemma apply_op_nonempty_structure:
  "current_generation grp \<noteq> [] \<Longrightarrow>
   gene_structure (apply_op op grp) = gene_structure grp \<and>
   gene_length (apply_op op grp) = gene_length grp"
  by (cases op)
    (simp_all add: add_organism_nonempty_structure delete_organisms_structure breed_structure
      set_experiment_mode_structure)

lemma fold_apply_op_structure:
  "(\<forall>k < length ops. current_generation (fold apply_op (take k ops) grp) \<noteq> []) \<Longrightarrow>
   gene_structure (fold apply_op ops grp) = gene_structure grp \<and>
   gene_length (fold apply_op ops grp) = gene_length grp"
proof (induction ops rule: rev_induct)
  case Nil
  show ?case by simp
next
  case (snoc op ops)
  have prefix: "\<forall>k < length ops. current_generation (fold apply_op (take k ops) grp) \<noteq> []"
  proof (intro allI impI)
    fix k assume "k < length ops"
    with snoc.prems [rule_format, of k] show "current_generation (fold apply_op (take k ops) grp) \<noteq> []"
      by simp
  qed
  from snoc.prems [rule_format, of "length ops"]
  have "current_generation (fold apply_op ops grp) \<noteq> []" by simp
  from apply_op_nonempty_structure [OF this, of op] snoc.IH [OF prefix]
  show ?case by simp
qed

text \<open>
  The structure is locked for as long as the population is not empty: when every operation
  of a sequence starts on a population of at least one organism, the recorded structure
  and length are at the end what they were at the start, and \<open>add_organism\<close> on such a
  population refuses every genotype of another length (the validator runs before the
  length is compared, so an invalid one is refused with the validator's error).
\<close>

lemma structure_locked_while_nonempty:
  "((\<forall>k < length ops. current_generation (fold apply_op (take k ops) grp) \<noteq> []) \<longrightarrow>
      gene_structure (fold apply_op ops grp) = gene_structure grp \<and>
      gene_length (fold apply_op ops grp) = gene_length grp) \<and>
   (current_generation grp \<noteq> [] \<and> length gs \<noteq> gene_length grp \<longrightarrow>
      fst (add_organism gs reg grp) \<noteq> None \<and> snd (add_organism gs reg grp) = grp \<and>
      (validate gs reg = None \<longrightarrow> fst (add_organism gs reg grp) = Some LengthMismatch))"
  using fold_apply_op_structure [of ops grp]
  by (auto simp: add_organism_def split: option.splits)

lemma add_organism_validates_before_length:
  "add_organism ''A'' registry_AB (group_of [''Aa'']) =
     (Some MalformedGenotype, group_of [''Aa''])"
  by (simp add: add_organism_def validate_def group_of_def)

text \<open>
  C4 (the code departs from it): the locus order and the genotype length are to be
  immutable once a population has received its first organism, and a later
  \<open>add_organism\<close> with a genotype of another length is to fail with \<open>LengthMismatch\<close>.
  \<open>add_organism\<close> tests whether the population is empty, not whether it has ever received
  an organism. So after \<open>Aa\<close> has been added to a new group and deleted again,
  \<open>add_organism\<close> accepts \<open>AaBb\<close> and replaces the structure \<open>[A]\<close> of length 2 by \<open>[A, B]\<close>
  of length 4; on the same emptied group \<open>change_composition\<close>, which compares with the
  stored length first, still refuses \<open>AaBb\<close> with \<open>LengthMismatch\<close>.
\<close>

theorem structure_reinitialised_after_emptying:
  "add_organism ''Aa'' registry_AB SimulationGroup = (None, group_of [''Aa'']) \<and>
   delete_organisms ''Aa'' 1 (group_of [''Aa'']) = (None, group_of []) \<and>
   add_organism ''AaBb'' registry_AB (group_of []) = (None, group_AaBb) \<and>
   change_composition ''G'' ''AaBb'' ''add'' 1 (system_of []) =
     (Some LengthMismatch, system_of [])"
  by (simp add: add_organism_def initialize_structure_def validate_def SimulationGroup_def
      registry_AB_def gene_A_def gene_B_def group_AaBb_def group_of_def delete_organisms_def
      slice_to_def change_composition_def system_of_def)

section \<open>Children\<close>

text \<open>A child has the length of the first parent, which is even.\<close>

lemma sort_loci_length: "sort_loci cs reg = Inr s \<Longrightarrow> length s = length cs"
proof (induction cs arbitrary: s rule: induct_list012)
  case 1
  then show ?case by simp
next
  case (2 a)
  then show ?case by (simp split: option.splits)
next
  case (3 a b rest)
  then show ?case by (auto simp del: sort_key_simps split: option.splits sum.splits)
qed

lemma gametes_length:
  "gametes p1 p2 reg r = (Inr cg, r') \<Longrightarrow> length cg = length p1 \<and> even (length p1)"
proof (induction p1 arbitrary: p2 r cg r' rule: induct_list012)
  case 1
  then show ?case by simp
next
  case (2 a)
  then show ?case by (simp split: option.splits)
next
  case (3 a b rest)
  then show ?case
    by (auto split: option.splits list.splits prod.splits sum.splits)
qed

lemma create_child_length:
  "create_child p1 p2 reg r = (Inr c, r') \<Longrightarrow> length c = length p1 \<and> even (length p1)"
proof -
  assume a: "create_child p1 p2 reg r = (Inr c, r')"
  then obtain cg where g: "gametes p1 p2 reg r = (Inr cg, r')" and s: "sort_loci cg reg = Inr c"
    by (auto simp: create_child_def split: prod.splits sum.splits)
  from gametes_length [OF g] sort_loci_length [OF s] show ?thesis by simp
qed

text \<open>
  \<open>random.choice\<close> on the two alleles of a locus, and \<open>sorted\<close> on the two gametes.
\<close>

lemma choice_pair:
  "choice [a, b] r = (if r 0 mod 2 = 0 then a else b, \<lambda>i. r (Suc i))"
proof -
  have len: "length [a, b] = 2" by simp
  have "r 0 mod 2 = 0 \<or> r 0 mod 2 = 1" by arith
  then show ?thesis unfolding choice_def randbelow_def len by auto
qed

lemma sort_key_pair:
  "sort_key f [x, y] = (if f x \<and> \<not> f y then [y, x] else [x, y])" for f :: "'a \<Rightarrow> bool"
  by auto

lemma allele_symbol:
  assumes "case_pairs reg" "reg k = Some g" "[a] \<in> {dominant g, recessive g}"
    "[x] \<in> {dominant g, recessive g}"
  shows "[char_upper x] = [char_upper a]"
proof -
  from assms(1,2) have "upper (recessive g) = upper (dominant g)" by (auto simp: case_pairs_def)
  with assms(3,4) have "upper [x] = upper [a]" by auto
  then show ?thesis by (simp add: upper_def)
qed

text \<open>
  In a registry of case pairs, two valid parents of the same length that carry the same
  gene at every locus have, for every outcome of the draws, a child: it has their
  length, it inherits one allele of each parent at every locus, every heterozygous
  locus is written with the dominant allele first, and the validator accepts it.
\<close>

lemma create_child_steps:
  assumes cp: "case_pairs reg" and ad: "alleles_distinct reg"
  shows "validate_loci p1 reg = None \<Longrightarrow> validate_loci p2 reg = None \<Longrightarrow>
         length p1 = length p2 \<Longrightarrow> locus_symbols p1 = locus_symbols p2 \<Longrightarrow>
         \<exists>cg r' s. gametes p1 p2 reg r = (Inr cg, r') \<and> sort_loci cg reg = Inr s \<and>
           inherits reg s p1 p2 \<and> validate_loci s reg = None"
proof (induction p1 arbitrary: p2 r rule: induct_list012)
  case 1
  then show ?case by simp
next
  case (2 a)
  then show ?case by (simp split: option.splits)
next
  case (3 a b p1)
  from "3.prems"(3) obtain c d p2' where p2: "p2 = c # d # p2'"
    by (cases p2; cases "tl p2"; auto)
  from "3.prems"(1) obtain g where
    g: "reg [char_upper a] = Some g" and
    ab: "[a] \<in> {dominant g, recessive g}" "[b] \<in> {dominant g, recessive g}" and
    order1: "\<not> ([b] = dominant g \<and> [a] = recessive g)" and
    v1: "validate_loci p1 reg = None"
    by (auto split: option.splits if_splits)
  from "3.prems"(4) p2 have sym: "char_upper c = char_upper a" and
    syms: "locus_symbols p1 = locus_symbols p2'" by simp_all
  from "3.prems"(2) p2 sym g have
    cd: "[c] \<in> {dominant g, recessive g}" "[d] \<in> {dominant g, recessive g}" and
    v2: "validate_loci p2' reg = None"
    by (auto split: option.splits if_splits)
  from "3.prems"(3) p2 have len: "length p1 = length p2'" by simp
  from ad g have dist: "dominant g \<noteq> recessive g" by (auto simp: alleles_distinct_def)
  define g1 where "g1 = (if r 0 mod 2 = 0 then a else b)"
  define g2 where "g2 = (if r 1 mod 2 = 0 then c else d)"
  define r2 :: rng where "r2 = (\<lambda>i. r (Suc (Suc i)))"
  have g1: "[g1] \<in> {dominant g, recessive g}" "g1 \<in> set [a, b]" using ab by (auto simp: g1_def)
  have g2: "[g2] \<in> {dominant g, recessive g}" "g2 \<in> set [c, d]" using cd by (auto simp: g2_def)
  from "3.IH"(1) [OF v1 v2 len syms, of r2] obtain cg r' s where
    rest: "gametes p1 p2' reg r2 = (Inr cg, r')" "sort_loci cg reg = Inr s"
      "inherits reg s p1 p2'" "validate_loci s reg = None"
    by blast
  have gam: "gametes (a # b # p1) p2 reg r = (Inr (g1 # g2 # cg), r')"
    using g rest(1) by (simp add: p2 choice_pair g1_def g2_def r2_def)
  define x where "x = (if [g1] = recessive g \<and> [g2] \<noteq> recessive g then g2 else g1)"
  define y where "y = (if [g1] = recessive g \<and> [g2] \<noteq> recessive g then g1 else g2)"
  have lookup: "reg [char_upper z] = Some g" if "[z] \<in> {dominant g, recessive g}" for z
    using allele_symbol [OF cp g ab(1) that] g by simp
  have srt: "sort_loci (g1 # g2 # cg) reg = Inr (x # y # s)"
    using lookup [OF g1(1)] rest(2) by (simp add: sort_key_pair x_def y_def del: sort_key_simps)
  have xy: "[x] \<in> {dominant g, recessive g}" "[y] \<in> {dominant g, recessive g}"
    using g1 g2 by (auto simp: x_def y_def)
  have order: "\<not> ([y] = dominant g \<and> [x] = recessive g)"
    using dist g1 g2 by (auto simp: x_def y_def)
  have same: "g1 = g2" if "[g1] = recessive g" "[g2] = recessive g"
    using that by (metis list.inject)
  have het: "x \<noteq> y \<longrightarrow> [x] = dominant g"
    using g1(1) g2(1) same unfolding x_def y_def
    by (cases "[g1] = recessive g"; cases "[g2] = recessive g"; simp)
  have from_parents: "\<exists>h1 \<in> set [a, b]. \<exists>h2 \<in> set [c, d]. [x, y] = [h1, h2] \<or> [x, y] = [h2, h1]"
    using g1(2) g2(2) unfolding x_def y_def by (intro bexI [of _ g1] bexI [of _ g2]) auto
  have "inherits reg (x # y # s) (a # b # p1) p2"
    using from_parents het g rest(3) unfolding p2 by (simp del: set_simps)
  moreover have "validate_loci (x # y # s) reg = None"
    using lookup [OF xy(1)] xy order rest(4) by auto
  ultimately show ?case using gam srt by blast
qed

lemma create_child_canonical:
  assumes "case_pairs reg" "alleles_distinct reg"
    and "validate p1 reg = None" "validate p2 reg = None"
    and "length p1 = length p2" "locus_symbols p1 = locus_symbols p2"
  shows "\<exists>c. fst (create_child p1 p2 reg r) = Inr c \<and> length c = length p1 \<and>
             inherits reg c p1 p2 \<and> validate c reg = None"
proof -
  from assms(3,4) have v: "validate_loci p1 reg = None" "validate_loci p2 reg = None"
    and ev: "even (length p1)"
    by (auto simp: validate_def split: if_splits)
  from create_child_steps [OF assms(1,2) v assms(5,6), of r] obtain cg r' s where
    st: "gametes p1 p2 reg r = (Inr cg, r')" "sort_loci cg reg = Inr s"
      "inherits reg s p1 p2" "validate_loci s reg = None"
    by blast
  then have cc: "create_child p1 p2 reg r = (Inr s, r')" by (simp add: create_child_def)
  from create_child_length [OF cc] have "length s = length p1" by simp
  with ev st cc show ?thesis by (simp add: validate_def)
qed

lemma registry_AB_case_pairs: "case_pairs registry_AB"
  by (simp add: case_pairs_def registry_AB_def gene_A_def gene_B_def upper_def)

text \<open>
  C8 (the code departs from it): for every pair of valid parents of equal even length
  over registered genes and every outcome of the draws, the child is to have the length
  of its parents, one allele of each parent at every locus, and every heterozygous locus
  written dominant-first. The second loop of \<open>_create_child\<close> does not take the gene of a
  locus from the parent, as the first loop does, but looks up the uppercase form of the
  first gamete drawn. After \<open>/add A b tall short\<close> the genotype \<open>Ab\<close> is valid; when the
  first parent contributes \<open>b\<close>, the lookup of \<open>B\<close> raises \<open>KeyError\<close> and there is no
  child. When a gene \<open>B\<close> with recessive allele \<open>c\<close> is registered too, the locus is sorted
  under that gene and the child of \<open>Ab\<close> and \<open>Ab\<close> is \<open>bA\<close>: recessive first, and not a
  genotype the validator accepts.
\<close>

theorem create_child_looks_up_first_gamete:
  "add_gene [''A'', ''b'', ''tall'', ''short''] GeneticSimulationSystem =
     (None, \<lparr>genes = registry_Ab, groups = Map.empty, current_group = None,
             printed = [GeneAdded ''A'']\<rparr>) \<and>
   validate ''Ab'' registry_Ab = None \<and>
   fst (create_child ''Ab'' ''Ab'' registry_Ab one_rng) = Inl KeyError \<and>
   validate ''Ab'' registry_Ab_Bc = None \<and>
   fst (create_child ''Ab'' ''Ab'' registry_Ab_Bc one_zero_rng) = Inr ''bA'' \<and>
   validate ''bA'' registry_Ab_Bc = Some InvalidAllele"
proof -
  have registered:
    "add_gene [''A'', ''b'', ''tall'', ''short''] GeneticSimulationSystem =
       (None, \<lparr>genes = registry_Ab, groups = Map.empty, current_group = None,
               printed = [GeneAdded ''A'']\<rparr>)"
    by (simp add: add_gene_def Gene_init_def GeneticSimulationSystem_def upper_def lower_def
        print_def gene_Ab_def registry_Ab_def Let_def)
  have children:
    "validate ''Ab'' registry_Ab = None \<and>
     fst (create_child ''Ab'' ''Ab'' registry_Ab one_rng) = Inl KeyError \<and>
     validate ''Ab'' registry_Ab_Bc = None \<and>
     fst (create_child ''Ab'' ''Ab'' registry_Ab_Bc one_zero_rng) = Inr ''bA'' \<and>
     validate ''bA'' registry_Ab_Bc = Some InvalidAllele"
    by code_simp
  from registered children show ?thesis by (rule conjI)
qed

section \<open>The size of the next generation\<close>

text \<open>The shuffle permutes the list it is given.\<close>

lemma shuffle_loop_set:
  "i < length xs \<or> i = 0 \<Longrightarrow>
   set (fst (shuffle_loop i xs r)) = set xs \<and> length (fst (shuffle_loop i xs r)) = length xs"
proof (induction i arbitrary: xs r)
  case 0
  then show ?case by simp
next
  case (Suc i)
  then have lt: "Suc i < length xs" by simp
  define j where "j = r 0 mod (Suc i + 1)"
  have j: "j < length xs" using lt by (simp add: j_def) (meson less_Suc_eq_le less_le_trans mod_less_divisor not_less zero_less_Suc le_less_trans less_imp_le)
  let ?ys = "xs[Suc i := xs ! j, j := xs ! Suc i]"
  have "set ?ys = set xs" using set_swap [OF lt j] by simp
  moreover have "length ?ys = length xs" by simp
  moreover have "i < length ?ys \<or> i = 0" using lt by simp
  ultimately show ?case using Suc.IH [of ?ys "\<lambda>i. r (Suc i)"]
    by (simp add: randbelow_def j_def)
qed

lemma shuffle_set:
  "set (fst (shuffle xs r)) = set xs \<and> length (fst (shuffle xs r)) = length xs"
  unfolding shuffle_def by (rule shuffle_loop_set) (cases xs; simp)

text \<open>The pairs of both modes are made of members of the population.\<close>

lemma zip_members: "(a, b) \<in> set (zip xs ys) \<Longrightarrow> a \<in> set xs \<and> b \<in> set ys"
  by (auto dest: set_zip_leftD set_zip_rightD)

lemma pop_pairs_members:
  "(a, b) \<in> set (pop_pairs xs) \<Longrightarrow> a \<in> set xs \<and> b \<in> set xs"
proof (induction xs rule: pop_pairs.induct)
  case (1 same_type)
  show ?case
  proof (cases "length same_type \<ge> 2")
    case True
    then have ne: "same_type \<noteq> []" "butlast same_type \<noteq> []"
      by (cases same_type; cases "tl same_type"; auto)+
    from "1.prems" True have
      "(a, b) = (last same_type, last (butlast same_type)) \<or>
       (a, b) \<in> set (pop_pairs (butlast (butlast same_type)))"
      by (subst (asm) pop_pairs.simps) simp
    then show ?thesis
    proof
      assume "(a, b) = (last same_type, last (butlast same_type))"
      with ne show ?thesis by (auto dest: in_set_butlastD last_in_set)
    next
      assume "(a, b) \<in> set (pop_pairs (butlast (butlast same_type)))"
      from "1.IH" [OF True this] show ?thesis by (auto dest: in_set_butlastD)
    qed
  next
    case False
    with "1.prems" show ?thesis by (subst (asm) pop_pairs.simps) simp
  qed
qed

lemma members_I: "(k, ms) \<in> set pg \<Longrightarrow> x \<in> set ms \<Longrightarrow> x \<in> members pg"
  by (induction pg) auto

lemma make_pairs_members:
  "(a, b) \<in> set (make_pairs pg) \<Longrightarrow> a \<in> members pg \<and> b \<in> members pg"
proof (induction pg)
  case Nil
  then show ?case by simp
next
  case (Cons km pg)
  obtain k ms where km: "km = (k, ms)" by (cases km)
  from Cons.prems km consider
    (zip) k' ms' where "(k', ms') \<in> set pg" "(a, b) \<in> set (zip ms ms')" |
    (pop) "(a, b) \<in> set (pop_pairs ms)" |
    (rest) "(a, b) \<in> set (make_pairs pg)"
    by auto
  then show ?case
  proof cases
    case zip
    then show ?thesis using km by (auto dest!: zip_members intro: members_I)
  next
    case pop
    then show ?thesis using km by (auto dest: pop_pairs_members)
  next
    case rest
    from Cons.IH [OF this] show ?thesis using km by auto
  qed
qed

lemma append_member_members: "members (append_member p pg) = insert p (members pg)"
  by (induction pg) (auto split: if_splits)

lemma group_parents_members: "members (group_parents ps pg) = set ps \<union> members pg"
  by (induction ps arbitrary: pg) (auto simp: append_member_members)

lemma breed_breeding_pairs:
  "breed reg r grp =
     (if length (current_generation grp) < 2 then (Some InsufficientPopulation, grp, r)
      else case breed_pairs (fst (breeding_pairs grp r)) reg (snd (breeding_pairs grp r)) of
             (Inl e, r2) \<Rightarrow> (Some e, grp, r2)
           | (Inr next_gen, r2) \<Rightarrow>
               (None,
                grp\<lparr>breed_history :=
                      breed_history grp @ [(length (current_generation grp), length next_gen)],
                    current_generation := next_gen\<rparr>,
                r2))"
  by (simp add: breed_def breeding_pairs_def Let_def split: prod.splits)

lemma breeding_pairs_members:
  assumes "p \<in> set (fst (breeding_pairs grp r))"
  shows "fst p \<in> set (current_generation grp) \<and> snd p \<in> set (current_generation grp)"
proof (cases "experiment_mode grp = ''cross''")
  case True
  let ?all = "make_pairs (group_parents (current_generation grp) [])"
  from assms True have "p \<in> set (take (length (current_generation grp) div 2) (fst (shuffle ?all r)))"
    by (simp add: breeding_pairs_def split: prod.splits)
  then have "p \<in> set (fst (shuffle ?all r))" by (rule in_set_takeD)
  then have "(fst p, snd p) \<in> set ?all" using shuffle_set [of ?all r] by simp
  from make_pairs_members [OF this] show ?thesis by (simp add: group_parents_members)
next
  case False
  let ?sh = "fst (shuffle (current_generation grp) r)"
  from assms False obtain i where i: "i < length ?sh div 2"
    and p: "p = (?sh ! (2 * i), ?sh ! (2 * i + 1))"
    by (auto simp: breeding_pairs_def split: prod.splits)
  from i have "2 * i < length ?sh" "2 * i + 1 < length ?sh" by arith+
  then have "?sh ! (2 * i) \<in> set ?sh" "?sh ! (2 * i + 1) \<in> set ?sh" by (simp_all del: One_nat_def)
  with p show ?thesis using shuffle_set [of "current_generation grp" r] by simp
qed

lemma breeding_pairs_length:
  "(experiment_mode grp \<noteq> ''cross'' \<longrightarrow>
      length (fst (breeding_pairs grp r)) = length (current_generation grp) div 2) \<and>
   (experiment_mode grp = ''cross'' \<longrightarrow>
      length (fst (breeding_pairs grp r)) \<le> length (current_generation grp) div 2)"
  using shuffle_set [of "current_generation grp" r]
  by (auto simp: breeding_pairs_def split: prod.splits)

text \<open>
  One child for every pair; \<open>breed\<close> leaves the population as it was when it raises, and
  when it returns the new generation has one child for each pair: half the population,
  rounded down, in random mode and at most that in cross mode.
\<close>

lemma breed_pairs_children:
  "breed_pairs ps reg r = (Inr gen, r') \<Longrightarrow>
   length gen = length ps \<and>
   (\<forall>c \<in> set gen. \<exists>p \<in> set ps. length c = length (fst p) \<and> even (length (fst p)))"
proof (induction ps arbitrary: r gen r')
  case Nil
  then show ?case by simp
next
  case (Cons p ps)
  obtain p1 p2 where p: "p = (p1, p2)" by (cases p)
  from Cons.prems p obtain c r1 gen1 where
    c: "create_child p1 p2 reg r = (Inr c, r1)" and
    rest: "breed_pairs ps reg r1 = (Inr gen1, r')" and
    gen: "gen = c # gen1"
    by (auto split: prod.splits sum.splits)
  from Cons.IH [OF rest] create_child_length [OF c] gen p show ?case by auto
qed

lemma breed_failure: "breed reg r grp = (Some e, grp', r') \<Longrightarrow> grp' = grp"
  by (auto simp: breed_breeding_pairs split: if_splits prod.splits sum.splits)

lemma breed_success:
  assumes "breed reg r grp = (None, grp', r')"
  shows "grp' = grp\<lparr>breed_history :=
                    breed_history grp @
                      [(length (current_generation grp), length (current_generation grp'))],
                  current_generation := current_generation grp'\<rparr>"
    and "length (current_generation grp') = length (fst (breeding_pairs grp r))"
    and "\<forall>c \<in> set (current_generation grp').
           \<exists>p \<in> set (current_generation grp). length c = length p \<and> even (length p)"
proof -
  from assms obtain next_gen where
    bp: "breed_pairs (fst (breeding_pairs grp r)) reg (snd (breeding_pairs grp r)) =
           (Inr next_gen, r')" and
    grp': "grp' = grp\<lparr>breed_history :=
                        breed_history grp @ [(length (current_generation grp), length next_gen)],
                      current_generation := next_gen\<rparr>"
    by (auto simp: breed_breeding_pairs split: if_splits prod.splits sum.splits)
  from grp' show "grp' = grp\<lparr>breed_history :=
                    breed_history grp @
                      [(length (current_generation grp), length (current_generation grp'))],
                  current_generation := current_generation grp'\<rparr>" by simp
  from breed_pairs_children [OF bp] grp'
  show "length (current_generation grp') = length (fst (breeding_pairs grp r))" by simp
  show "\<forall>c \<in> set (current_generation grp').
           \<exists>p \<in> set (current_generation grp). length c = length p \<and> even (length p)"
  proof
    fix c assume "c \<in> set (current_generation grp')"
    with grp' have "c \<in> set next_gen" by simp
    with breed_pairs_children [OF bp] obtain p where
      p: "p \<in> set (fst (breeding_pairs grp r))" and
      len: "length c = length (fst p) \<and> even (length (fst p))" by blast
    from breeding_pairs_members [OF p] len
    show "\<exists>p \<in> set (current_generation grp). length c = length p \<and> even (length p)" by blast
  qed
qed

lemma breed_size:
  assumes "breed reg r grp = (None, grp', r')"
  shows "(experiment_mode grp \<noteq> ''cross'' \<longrightarrow>
            length (current_generation grp') = length (current_generation grp) div 2) \<and>
         (experiment_mode grp = ''cross'' \<longrightarrow>
            length (current_generation grp') \<le> length (current_generation grp) div 2)"
  using breed_success(2) [OF assms] breeding_pairs_length [of grp r] by simp

text \<open>
  In a registry of case pairs, breeding a population of at least two valid genotypes of
  one length raises nothing.
\<close>

lemma create_child_succeeds:
  assumes cp: "case_pairs reg"
  shows "validate_loci p1 reg = None \<Longrightarrow> length p1 \<le> length p2 \<Longrightarrow>
         \<exists>cg r' s. gametes p1 p2 reg r = (Inr cg, r') \<and> sort_loci cg reg = Inr s"
proof (induction p1 arbitrary: p2 r rule: induct_list012)
  case 1
  then show ?case by simp
next
  case (2 a)
  then show ?case by (simp split: option.splits)
next
  case (3 a b p1)
  from "3.prems"(2) obtain c d p2' where p2: "p2 = c # d # p2'"
    by (cases p2; cases "tl p2"; auto)
  from "3.prems"(1) obtain g where
    g: "reg [char_upper a] = Some g" and
    ab: "[a] \<in> {dominant g, recessive g}" "[b] \<in> {dominant g, recessive g}" and
    v1: "validate_loci p1 reg = None"
    by (auto split: option.splits if_splits)
  from "3.prems"(2) p2 have len: "length p1 \<le> length p2'" by simp
  define g1 where "g1 = (if r 0 mod 2 = 0 then a else b)"
  define g2 where "g2 = (if r 1 mod 2 = 0 then c else d)"
  define r2 :: rng where "r2 = (\<lambda>i. r (Suc (Suc i)))"
  have g1: "[g1] \<in> {dominant g, recessive g}" using ab by (auto simp: g1_def)
  from "3.IH"(1) [OF v1 len, of r2] obtain cg r' s where
    rest: "gametes p1 p2' reg r2 = (Inr cg, r')" "sort_loci cg reg = Inr s"
    by blast
  have gam: "gametes (a # b # p1) p2 reg r = (Inr (g1 # g2 # cg), r')"
    using g rest(1) by (simp add: p2 choice_pair g1_def g2_def r2_def)
  have "reg [char_upper g1] = Some g"
    using allele_symbol [OF cp g ab(1) g1] g by simp
  then have "\<exists>s'. sort_loci (g1 # g2 # cg) reg = Inr s'"
    using rest(2) by (simp del: sort_key_simps)
  with gam show ?case by blast
qed

lemma breed_pairs_succeeds:
  assumes cp: "case_pairs reg"
  shows "\<forall>p \<in> set ps. validate (fst p) reg = None \<and> length (fst p) = length (snd p) \<Longrightarrow>
         \<exists>gen r'. breed_pairs ps reg r = (Inr gen, r')"
proof (induction ps arbitrary: r)
  case Nil
  show ?case by simp
next
  case (Cons p ps)
  obtain p1 p2 where p: "p = (p1, p2)" by (cases p)
  from Cons.prems p have v: "validate_loci p1 reg = None" and len: "length p1 \<le> length p2"
    by (auto simp: validate_def split: if_splits)
  from create_child_succeeds [OF cp v len, of r] obtain c r1 where
    c: "create_child p1 p2 reg r = (Inr c, r1)"
    by (auto simp: create_child_def)
  from Cons.prems have "\<forall>p \<in> set ps. validate (fst p) reg = None \<and> length (fst p) = length (snd p)"
    by simp
  from Cons.IH [OF this, of r1] obtain gen r' where "breed_pairs ps reg r1 = (Inr gen, r')"
    by blast
  with c p show ?case by simp
qed

lemma breed_replaces_population:
  assumes "case_pairs reg"
    and "list_all (\<lambda>g. validate g reg = None) (current_generation grp)"
    and "uniform_population grp"
    and "2 \<le> length (current_generation grp)"
  shows "\<exists>grp' r'. breed reg r grp = (None, grp', r') \<and>
           (experiment_mode grp \<noteq> ''cross'' \<longrightarrow>
              length (current_generation grp') = length (current_generation grp) div 2) \<and>
           (experiment_mode grp = ''cross'' \<longrightarrow>
              length (current_generation grp') \<le> length (current_generation grp) div 2)"
proof -
  have "\<forall>p \<in> set (fst (breeding_pairs grp r)).
          validate (fst p) reg = None \<and> length (fst p) = length (snd p)"
  proof
    fix p assume "p \<in> set (fst (breeding_pairs grp r))"
    from breeding_pairs_members [OF this] assms(2,3)
    show "validate (fst p) reg = None \<and> length (fst p) = length (snd p)"
      by (simp add: uniform_population_def list_all_iff)
  qed
  from breed_pairs_succeeds [OF assms(1) this, of "snd (breeding_pairs grp r)"]
  obtain gen r' where "breed_pairs (fst (breeding_pairs grp r)) reg (snd (breeding_pairs grp r)) =
    (Inr gen, r')" by blast
  with assms(4) obtain grp' where b: "breed reg r grp = (None, grp', r')"
    by (simp add: breed_breeding_pairs)
  from breed_size [OF b] b show ?thesis by blast
qed

text \<open>
  C5 (the code departs from it): for every population of at least two organisms,
  \<open>breed\<close> is to replace the population by a new generation, of half its size rounded
  down in random mode and of at most that size in cross mode. The population that
  \<open>/add A b tall short\<close> and \<open>/change G Ab add 2\<close> build holds two valid organisms. When
  both parents contribute \<open>b\<close>, the second loop of \<open>_create_child\<close> looks up \<open>B\<close>, \<open>breed\<close>
  raises \<open>KeyError\<close>, and the two parents stay where they were: no generation of size one
  replaces them.
\<close>

theorem breed_raises_on_valid_population:
  "fold apply_op [Add ''Ab'' registry_Ab, Add ''Ab'' registry_Ab] SimulationGroup = group_Ab \<and>
   list_all (\<lambda>g. validate g registry_Ab = None) (current_generation group_Ab) \<and>
   fst (breed registry_Ab one_rng group_Ab) = Some KeyError \<and>
   fst (snd (breed registry_Ab one_rng group_Ab)) = group_Ab"
  by code_simp

section \<open>Uniform populations\<close>

lemma validate_even: "validate gs reg = None \<Longrightarrow> even (length gs)"
  by (auto simp: validate_def split: if_splits)

lemma add_organism_uniform:
  assumes "uniform_population grp"
  shows "uniform_population (snd (add_organism gs reg grp))"
proof (cases "current_generation grp = []")
  case True
  obtain st acc where il: "initialize_loop gs reg {} [] = (st, acc)"
    by (cases "initialize_loop gs reg {} []")
  show ?thesis
  proof (cases st)
    case (Some e)
    with il True show ?thesis
      by (simp add: add_organism_def initialize_structure_def uniform_population_def)
  next
    case None
    with il True show ?thesis
      by (cases "validate gs reg")
        (auto simp: add_organism_def initialize_structure_def uniform_population_def
          dest: validate_even)
  qed
next
  case False
  with assms show ?thesis
    by (auto simp: add_organism_def uniform_population_def split: option.splits
        dest: validate_even)
qed

lemma slice_to_filter_member: "g \<in> set (slice_to k (filter P xs)) \<Longrightarrow> g \<in> set xs"
  by (auto simp: slice_to_def dest: in_set_takeD split: if_splits)

lemma delete_organisms_uniform:
  assumes "uniform_population grp"
  shows "uniform_population (snd (delete_organisms gs amount grp))"
  using assms
  by (auto simp: delete_organisms_def uniform_population_def list_all_iff Let_def
      dest!: slice_to_filter_member)

lemma set_experiment_mode_uniform:
  "uniform_population grp \<Longrightarrow> uniform_population (snd (set_experiment_mode m grp))"
  by (simp add: set_experiment_mode_def uniform_population_def)

lemma breed_uniform:
  assumes "uniform_population grp"
  shows "uniform_population (fst (snd (breed reg r grp)))"
proof -
  obtain st grp' r' where b: "breed reg r grp = (st, grp', r')" by (cases "breed reg r grp")
  show ?thesis
  proof (cases st)
    case None
    with b have ok: "breed reg r grp = (None, grp', r')" by simp
    from breed_success(1) [OF ok] have "gene_length grp' = gene_length grp"
      by (cases grp, cases grp') auto
    with breed_success(3) [OF ok] assms b show ?thesis
      by (fastforce simp: uniform_population_def list_all_iff)
  next
    case (Some e)
    with b breed_failure [of reg r grp e grp' r'] assms show ?thesis by simp
  qed
qed

lemma apply_op_uniform: "uniform_population grp \<Longrightarrow> uniform_population (apply_op op grp)"
  by (cases op)
    (simp_all add: add_organism_uniform delete_organisms_uniform breed_uniform
      set_experiment_mode_uniform)

lemma fold_apply_op_uniform:
  "uniform_population grp \<Longrightarrow> uniform_population (fold apply_op ops grp)"
  by (induction ops arbitrary: grp) (simp_all add: apply_op_uniform)

text \<open>
  C10: in every state a population reaches from a new one by adding organisms, deleting
  organisms, breeding and setting the mode, whether the operations succeed or fail, with
  whatever registries and random draws, every genotype in the population has the stored
  length, and that length is even; so all of them have the same length.
\<close>

theorem population_uniform_in_every_reachable_state:
  "uniform_population (fold apply_op ops SimulationGroup)"
  by (rule fold_apply_op_uniform) (simp add: uniform_population_def SimulationGroup_def)

lemma population_ops_result:
  "current_generation (fold apply_op population_ops SimulationGroup) = [''Aa''] \<and>
   gene_length (fold apply_op population_ops SimulationGroup) = 2"
  by code_simp

theorem population_uniform_in_every_reachable_state_witness:
  "current_generation (fold apply_op population_ops SimulationGroup) = [''Aa''] \<and>
   gene_length (fold apply_op population_ops SimulationGroup) = 2 \<and>
   uniform_population (fold apply_op population_ops SimulationGroup)"
  using population_uniform_in_every_reachable_state [of population_ops] population_ops_result
  by simp

end
